theory Spec2Isabelle
  imports Main
begin

section \<open>Text: Python strings as lists of code points\<close>

text \<open>
  A Python \<open>str\<close> is a sequence of Unicode code points and \<open>len\<close> counts code points,
  so a string is modelled as a list of natural numbers (one per code point).
  An argument that may be \<open>None\<close> is an \<open>option\<close>.
\<close>

type_synonym ustring = "nat list"

definition ascii :: "string \<Rightarrow> ustring" where
  "ascii s = map of_char s"

subsection \<open>The character table\<close>

text \<open>
  \<open>GSM_7BIT_CHARS\<close> is the concatenation of the four string literals of the source,
  code point by code point, one parenthesis for each literal (in the second: punctuation,
  digits, punctuation; in the third and fourth: the letters in two halves, then the
  accented letters). The space occurs twice, as in the source.
\<close>

definition GSM_7BIT_CHARS :: ustring where
  "GSM_7BIT_CHARS =
    ([64, 163, 36, 165, 232, 233, 249, 236, 242, 199, 10, 216, 248, 13, 197, 229] @
     [916, 95, 934, 915, 923, 937, 928, 936, 931, 920, 926]) @
    ([32, 33, 34, 35, 164, 37, 38, 39, 40, 41, 42, 43, 44, 45, 46, 47] @
     [48, 49, 50, 51, 52, 53, 54, 55, 56, 57] @ [58, 59, 60, 61, 62, 63]) @
    ([161] @ [65, 66, 67, 68, 69, 70, 71, 72, 73, 74, 75, 76, 77] @
     [78, 79, 80, 81, 82, 83, 84, 85, 86, 87, 88, 89, 90] @ [196, 214, 209, 220, 167, 191]) @
    ([97, 98, 99, 100, 101, 102, 103, 104, 105, 106, 107, 108, 109] @
     [110, 111, 112, 113, 114, 115, 116, 117, 118, 119, 120, 121, 122] @
     [228, 246, 241, 252, 224, 32])"

definition GSM_7BIT_SET :: "nat set" where
  "GSM_7BIT_SET = set GSM_7BIT_CHARS"

subsection \<open>Encoding classification\<close>

text \<open>The loop of \<open>is_gsm_7bit\<close>: the first character outside the set returns \<open>False\<close>.\<close>

fun all_in_gsm :: "ustring \<Rightarrow> bool" where
  "all_in_gsm [] = True"
| "all_in_gsm (ch # rest) = (if ch \<notin> GSM_7BIT_SET then False else all_in_gsm rest)"

definition is_gsm_7bit :: "ustring option \<Rightarrow> bool" where
  "is_gsm_7bit text = (case text of None \<Rightarrow> True | Some t \<Rightarrow> all_in_gsm t)"

definition get_chunk_limit :: "ustring option \<Rightarrow> bool \<Rightarrow> nat" where
  "get_chunk_limit text is_multipart =
     (let gsm = is_gsm_7bit text in
      if gsm then (if is_multipart then 153 else 160)
      else (if is_multipart then 67 else 70))"

subsection \<open>Whitespace normalisation\<close>

text \<open>
  The code points that Python's \<open>\s\<close> (on \<open>str\<close> patterns) and \<open>str.strip()\<close> treat as
  whitespace.
\<close>

definition is_space :: "nat \<Rightarrow> bool" where
  "is_space c \<longleftrightarrow>
     (9 \<le> c \<and> c \<le> 13) \<or> (28 \<le> c \<and> c \<le> 32) \<or> c = 133 \<or> c = 160 \<or> c = 5760 \<or>
     (8192 \<le> c \<and> c \<le> 8202) \<or> c = 8232 \<or> c = 8233 \<or> c = 8239 \<or> c = 8287 \<or> c = 12288"

text \<open>\<open>re.sub(r'\s+', ' ', text)\<close>: every maximal run of whitespace becomes one space.\<close>

function sub_ws :: "ustring \<Rightarrow> ustring" where
  "sub_ws [] = []"
| "sub_ws (c # cs) =
     (if is_space c then 32 # sub_ws (dropWhile is_space cs) else c # sub_ws cs)"
  by pat_completeness auto
termination
  by (relation "measure length") (auto simp: length_dropWhile_le less_Suc_eq_le)

text \<open>\<open>str.strip()\<close>: leading and trailing whitespace removed.\<close>

definition strip :: "ustring \<Rightarrow> ustring" where
  "strip s = rev (dropWhile is_space (rev (dropWhile is_space s)))"

definition normalize_ws :: "ustring \<Rightarrow> ustring" where
  "normalize_ws text = strip (sub_ws text)"

text \<open>\<open>text.split(' ')\<close>: split at every single space; empty pieces are kept.\<close>

fun split_space :: "ustring \<Rightarrow> ustring list" where
  "split_space [] = [[]]"
| "split_space (c # cs) =
     (if c = 32 then [] # split_space cs
      else (case split_space cs of
              [] \<Rightarrow> [[c]]
            | w # ws \<Rightarrow> (c # w) # ws))"

subsection \<open>Chunking\<close>

text \<open>
  The inner \<open>for i in range(len(remaining_word), 0, -1)\<close>: the largest \<open>i\<close>, counting
  down from the second argument, whose prefix is within the multipart limit of its
  own encoding; \<open>None\<close> when the loop ends without \<open>break\<close>.
\<close>

fun find_part :: "ustring \<Rightarrow> nat \<Rightarrow> nat option" where
  "find_part remaining_word 0 = None"
| "find_part remaining_word (Suc k) =
     (let test_part = take (Suc k) remaining_word in
      if length test_part \<le> get_chunk_limit (Some test_part) True then Some (Suc k)
      else find_part remaining_word k)"

text \<open>
  The \<open>while remaining_word\<close> loop. When the inner loop ends without \<open>break\<close> the
  source goes round again with the same \<open>remaining_word\<close>; the model keeps that
  branch, and the termination proof shows that it is never taken.
\<close>

function split_word :: "ustring list \<Rightarrow> ustring \<Rightarrow> ustring list" where
  "split_word chunks remaining_word =
     (if remaining_word = [] then chunks
      else (case find_part remaining_word (length remaining_word) of
              Some i \<Rightarrow> split_word (chunks @ [take i remaining_word]) (drop i remaining_word)
            | None \<Rightarrow> split_word chunks remaining_word))"
  by pat_completeness auto
termination
proof (relation "measure (\<lambda>(chunks, rw). length rw)")
  show "wf (measure (\<lambda>(chunks, rw). length rw))"
    by simp
next
  fix chunks :: "ustring list" and remaining_word :: ustring and i :: nat
  assume "remaining_word \<noteq> []"
    and "find_part remaining_word (length remaining_word) = Some i"
  moreover have "find_part remaining_word k = Some j \<Longrightarrow> 0 < j" for k j
    by (induction k) (auto simp: Let_def split: if_splits)
  ultimately show "((chunks @ [take i remaining_word], drop i remaining_word),
      (chunks, remaining_word)) \<in> measure (\<lambda>(chunks, rw). length rw)"
    by fastforce
next
  fix chunks :: "ustring list" and remaining_word :: ustring
  assume "remaining_word \<noteq> []"
    and "find_part remaining_word (length remaining_word) = None"
  moreover have "0 < k \<Longrightarrow> find_part remaining_word k \<noteq> None" for k
  proof (induction k)
    case 0
    then show ?case by simp
  next
    case (Suc k)
    show ?case
    proof (cases k)
      case 0
      then show ?thesis
        by (auto simp: get_chunk_limit_def Let_def min_def)
    next
      case (Suc m)
      with Suc.IH show ?thesis
        by (simp add: Let_def)
    qed
  qed
  ultimately show "((chunks, remaining_word), (chunks, remaining_word))
      \<in> measure (\<lambda>(chunks, rw). length rw)"
    by simp
qed

declare split_word.simps [simp del]

text \<open>
  One iteration of \<open>for word in words\<close>; the loop state is the pair
  \<open>(chunks, current_chunk)\<close>.
\<close>

definition pack_word :: "ustring list \<times> ustring \<Rightarrow> ustring \<Rightarrow> ustring list \<times> ustring" where
  "pack_word st word =
     (let (chunks, current_chunk) = st;
          test_chunk = (if current_chunk \<noteq> [] then current_chunk @ [32] @ word else word);
          chunk_limit = get_chunk_limit (Some test_chunk) True
      in if length test_chunk \<le> chunk_limit then (chunks, test_chunk)
         else (let chunks1 = (if current_chunk \<noteq> [] then chunks @ [current_chunk] else chunks)
               in if length word > get_chunk_limit (Some word) True
                  then (split_word chunks1 word, [])
                  else (chunks1, word)))"

definition chunk_text_smart :: "ustring option \<Rightarrow> ustring list" where
  "chunk_text_smart text0 =
     (case text0 of
        None \<Rightarrow> []
      | Some raw \<Rightarrow>
          (let text = normalize_ws raw in
           if text = [] then []
           else (let single_limit = get_chunk_limit (Some text) False in
                 if length text \<le> single_limit then [text]
                 else (let words = split_space text;
                           (chunks, current_chunk) = foldl pack_word ([], []) words
                       in if current_chunk \<noteq> [] then chunks @ [current_chunk] else chunks))))"


text \<open>\<open>' '.join(words)\<close>, used to write down inputs and to state what the words of a text are.\<close>

fun join_space :: "ustring list \<Rightarrow> ustring" where
  "join_space [] = []"
| "join_space [w] = w"
| "join_space (w # v # ws) = w @ 32 # join_space (v # ws)"

section \<open>The server state\<close>

text \<open>
  The globals of the module, as one record: the two dictionaries, the set of processed
  identifiers, the three queues (oldest element first), the contents of the two files,
  and the lines written by \<open>log\<close> (their time stamps left out; \<open>dprint\<close> is not modelled).
  \<open>disk_ok\<close> is the environment's answer to a write: when it is false, \<open>open\<close> or
  \<open>json.dump\<close> raises and the \<open>except\<close> branch of the save function logs the error.
  Each function below runs as one step; interleavings of the threads inside a function
  are not modelled.
\<close>

datatype role = User | System | Assistant

datatype direction = Inbound | Outbound

record entry =
  entry_role :: role
  entry_text :: ustring
  entry_ts :: int
  entry_direction :: direction

type_synonym chat = nat

record sms_message =
  msg_id :: ustring
  msg_phone_number :: ustring
  msg_message :: ustring
  msg_direction :: direction

text \<open>
  A value read from the JSON that \<open>termux-sms-list\<close> prints: \<open>null\<close> (also what
  \<open>sms.get\<close> returns for an absent key), an integer or a string. Other JSON values
  are not modelled.
\<close>

datatype json = J_null | J_int int | J_str ustring

datatype log_line =
    Log_in ustring ustring
  | Log_already_registered ustring
  | Log_registered ustring
  | Log_cleared ustring
  | Log_ignored_unregistered ustring
  | Log_save_histories_error
  | Log_save_processed_error
  | Log_create_chat_error ustring
  | Log_gemini_responding ustring nat
  | Log_gemini_worker_error ustring
  | Log_polling_error

record server =
  histories :: "ustring \<rightharpoonup> entry list"
  chats :: "ustring \<rightharpoonup> chat"
  processed_sms :: "json set"
  send_queue :: "(ustring \<times> ustring) list"
  gemini_workers :: "(ustring \<times> ustring) list"
  new_message_queue :: "sms_message list"
  history_file :: "(ustring \<rightharpoonup> entry list) option"
  processed_file :: "json set option"
  disk_ok :: bool
  log_lines :: "log_line list"
  routed :: "json list"

definition log :: "log_line \<Rightarrow> server \<Rightarrow> server" where
  "log l st = st\<lparr>log_lines := log_lines st @ [l]\<rparr>"

definition save_histories :: "server \<Rightarrow> server" where
  "save_histories st =
     (if disk_ok st then st\<lparr>history_file := Some (histories st)\<rparr>
      else log Log_save_histories_error st)"


definition send_sms_raw :: "ustring \<Rightarrow> ustring \<Rightarrow> server \<Rightarrow> server" where
  "send_sms_raw phone_number text st = st\<lparr>send_queue := send_queue st @ [(phone_number, text)]\<rparr>"

section \<open>The command router\<close>

text \<open>
  \<open>handle_incoming\<close>. Python's \<open>str.lower\<close> is not part of the repository and is a
  parameter, \<open>lower\<close>; \<open>ascii_lower\<close> is its restriction to ASCII, for running the model.
\<close>

definition ascii_lower :: "ustring \<Rightarrow> ustring" where
  "ascii_lower s = map (\<lambda>c. if 65 \<le> c \<and> c \<le> 90 then c + 32 else c) s"

definition handle_incoming ::
  "(ustring \<Rightarrow> ustring) \<Rightarrow> ustring option \<Rightarrow> ustring option \<Rightarrow> server \<Rightarrow> server" where
  "handle_incoming lower phone0 text0 st =
     (case phone0 of
        None \<Rightarrow> st
      | Some phone \<Rightarrow>
     (case text0 of
        None \<Rightarrow> st
      | Some text \<Rightarrow>
          (let txt = strip text;
               lower_txt = lower txt;
               st1 = log (Log_in phone txt) st
           in if lower_txt = ascii ''chat'' then
                (if phone \<in> dom (histories st1) then
                   log (Log_already_registered phone)
                     (send_sms_raw phone
                        (ascii ''Your number is already registered. You can start chatting!'') st1)
                 else
                   log (Log_registered phone)
                     (send_sms_raw phone (ascii ''Your number has been registered successfully.'')
                        (save_histories (st1\<lparr>histories := (histories st1)(phone \<mapsto> [])\<rparr>))))
              else if lower_txt = ascii ''clear'' then
                (let st2 = (if phone \<in> dom (histories st1)
                            then save_histories (st1\<lparr>histories := (histories st1)(phone := None)\<rparr>)
                            else st1);
                     st3 = (if phone \<in> dom (chats st2)
                            then st2\<lparr>chats := (chats st2)(phone := None)\<rparr>
                            else st2)
                 in log (Log_cleared phone)
                      (send_sms_raw phone (ascii ''Chat history cleared successfully'') st3))
              else if phone \<in> dom (histories st1) then
                (let st2 = send_sms_raw phone (ascii ''Thinking...'') st1
                 in st2\<lparr>gemini_workers := gemini_workers st2 @ [(phone, txt)]\<rparr>)
              else log (Log_ignored_unregistered phone) st1)))"

section \<open>The polling loop\<close>








section \<open>The conversational worker\<close>

text \<open>
  What the backend does in one round of the worker: the result of creating a chat and
  sending it the initial prompt (\<open>None\<close> when either raises), the result of
  \<open>chat.send_message\<close> (\<open>Send_failed\<close> when it raises, otherwise the \<open>text\<close> attribute of
  the response, which may be \<open>None\<close>), and the clock.
\<close>

datatype response = Send_failed | Response "ustring option"

record backend =
  create_chat :: "chat option"
  send_message :: response
  clock :: int

definition ensure_chat :: "backend \<Rightarrow> ustring \<Rightarrow> server \<Rightarrow> server + chat \<times> server" where
  "ensure_chat env phone st =
     (case chats st phone of
        Some c \<Rightarrow> Inr (c, st)
      | None \<Rightarrow>
          (case create_chat env of
             None \<Rightarrow> Inl (log (Log_create_chat_error phone) st)
           | Some c \<Rightarrow> Inr (c, st\<lparr>chats := (chats st)(phone \<mapsto> c)\<rparr>)))"

definition setdefault :: "ustring \<Rightarrow> (ustring \<rightharpoonup> entry list) \<Rightarrow> (ustring \<rightharpoonup> entry list)" where
  "setdefault phone h = (case h phone of None \<Rightarrow> h(phone \<mapsto> []) | Some _ \<Rightarrow> h)"

definition append_entry :: "ustring \<Rightarrow> entry \<Rightarrow> (ustring \<rightharpoonup> entry list) \<Rightarrow> (ustring \<rightharpoonup> entry list)" where
  "append_entry phone e h = (case h phone of None \<Rightarrow> h | Some es \<Rightarrow> h(phone \<mapsto> es @ [e]))"

text \<open>
  The body of the worker's \<open>try\<close> for the job \<open>(phone, text)\<close>; \<open>Inl\<close> is an exception,
  with the state at the point where it was raised. \<open>resp.text.strip()\<close> raises when
  \<open>resp.text\<close> is \<open>None\<close>.
\<close>

definition gemini_job :: "backend \<Rightarrow> ustring \<Rightarrow> ustring \<Rightarrow> server \<Rightarrow> server + server" where
  "gemini_job env phone text st =
     (case ensure_chat env phone st of
        Inl st1 \<Rightarrow> Inl st1
      | Inr (c, st1) \<Rightarrow>
          (case send_message env of
             Send_failed \<Rightarrow> Inl st1
           | Response None \<Rightarrow> Inl st1
           | Response (Some t) \<Rightarrow>
               (let reply = strip t;
                    ts = clock env;
                    h1 = setdefault phone (histories st1);
                    h2 = append_entry phone
                           \<lparr>entry_role = User, entry_text = text, entry_ts = ts,
                            entry_direction = Inbound\<rparr> h1;
                    h3 = append_entry phone
                           \<lparr>entry_role = Assistant, entry_text = reply, entry_ts = ts + 1,
                            entry_direction = Outbound\<rparr> h2;
                    st2 = save_histories (st1\<lparr>histories := h3\<rparr>);
                    chunks = chunk_text_smart (Some reply);
                    st3 = log (Log_gemini_responding phone (length chunks)) st2
                in Inr (foldl (\<lambda>s chunk. send_sms_raw phone chunk s) st3 chunks))))"

text \<open>
  One round of the worker's \<open>while\<close>: an empty queue times out and the round ends;
  otherwise the oldest job is taken off the queue and run, and an exception is logged.
\<close>

definition gemini_worker_step :: "backend \<Rightarrow> server \<Rightarrow> server" where
  "gemini_worker_step env st =
     (case gemini_workers st of
        [] \<Rightarrow> st
      | (phone, text) # rest \<Rightarrow>
          (case gemini_job env phone text (st\<lparr>gemini_workers := rest\<rparr>) of
             Inr st' \<Rightarrow> st'
           | Inl st' \<Rightarrow> log (Log_gemini_worker_error phone) st'))"

text \<open>The worker, run for as many rounds as there are backend results.\<close>

fun gemini_worker_fn :: "backend list \<Rightarrow> server \<Rightarrow> server" where
  "gemini_worker_fn [] st = st"
| "gemini_worker_fn (env # envs) st = gemini_worker_fn envs (gemini_worker_step env st)"

section \<open>The history endpoint\<close>

record chat_history_response =
  phone_number :: ustring
  messages :: "entry list"
  total_count :: nat

text \<open>\<open>xs[start:]\<close> for a Python list: a negative start counts from the end, and both ends clamp.\<close>

definition slice_from :: "int \<Rightarrow> 'a list \<Rightarrow> 'a list" where
  "slice_from start xs =
     (let n = int (length xs);
          s = (if start < 0 then max 0 (start + n) else min start n)
      in drop (nat s) xs)"

definition get_history :: "ustring \<Rightarrow> int option \<Rightarrow> server \<Rightarrow> chat_history_response" where
  "get_history phone limit st =
     (case histories st phone of
        None \<Rightarrow> \<lparr>phone_number = phone, messages = [], total_count = 0\<rparr>
      | Some h \<Rightarrow>
          (let messages0 = (case limit of
                              None \<Rightarrow> h
                            | Some l \<Rightarrow> if l \<noteq> 0 then slice_from (- l) h else h)
           in \<lparr>phone_number = phone, messages = messages0, total_count = length h\<rparr>))"

section \<open>Notions used in the statements and proofs\<close>

text \<open>A chunk is within the multipart limit of its own encoding.\<close>

definition within_limit :: "ustring \<Rightarrow> bool" where
  "within_limit c \<longleftrightarrow> length c \<le> get_chunk_limit (Some c) True"

text \<open>The state of the packing loop holds only non-empty chunks within their limits, and a
  pending chunk within its limit.\<close>

definition chunks_ok :: "ustring list \<times> ustring \<Rightarrow> bool" where
  "chunks_ok st \<longleftrightarrow> (\<forall>c\<in>set (fst st). within_limit c \<and> c \<noteq> []) \<and> within_limit (snd st)"

text \<open>The characters held by a state of the packing loop, each chunk counted with one separator.\<close>

fun state_size :: "ustring list \<times> ustring \<Rightarrow> nat" where
  "state_size (chunks, cur) =
     sum_list (map length chunks) + length chunks + length cur + (if cur \<noteq> [] then 1 else 0)"

text \<open>Every whitespace character is a space and is not followed by whitespace.\<close>

fun single_spaced :: "ustring \<Rightarrow> bool" where
  "single_spaced [] = True"
| "single_spaced (c # cs) =
     ((is_space c \<longrightarrow> c = 32 \<and> (cs = [] \<or> \<not> is_space (hd cs))) \<and> single_spaced cs)"

text \<open>A non-empty string without whitespace.\<close>

definition plain_word :: "ustring \<Rightarrow> bool" where
  "plain_word w \<longleftrightarrow> w \<noteq> [] \<and> (\<forall>c\<in>set w. \<not> is_space c)"

text \<open>A word of 77 letters \<open>a\<close>, for writing down inputs.\<close>

abbreviation (input) word77 :: ustring where
  "word77 \<equiv> replicate 77 97"

text \<open>The state at start-up when no file exists: nothing registered, nothing queued.\<close>

definition initial_server :: server where
  "initial_server =
     \<lparr>histories = Map.empty, chats = Map.empty, processed_sms = {}, send_queue = [],
      gemini_workers = [], new_message_queue = [], history_file = None,
      processed_file = None, disk_ok = True, log_lines = [], routed = []\<rparr>"

text \<open>
  The backend fails for a job of \<open>phone\<close>: the chat has to be created and creating it
  raises, or sending the message raises, or the response has no text (so that
  \<open>resp.text.strip()\<close> raises).
\<close>

definition backend_fails :: "backend \<Rightarrow> server \<Rightarrow> ustring \<Rightarrow> bool" where
  "backend_fails env st phone \<longleftrightarrow>
     chats st phone = None \<and> create_chat env = None \<or>
     send_message env = Send_failed \<or> send_message env = Response None"




text \<open>A history entry with the time stamp \<open>n\<close>, for writing down inputs.\<close>

abbreviation (input) turn :: "int \<Rightarrow> entry" where
  "turn n \<equiv> \<lparr>entry_role = User, entry_text = [], entry_ts = n, entry_direction = Inbound\<rparr>"

section \<open>Basic facts: classification, normalisation and the packing loop\<close>

lemma all_in_gsm_iff: "all_in_gsm t \<longleftrightarrow> set t \<subseteq> GSM_7BIT_SET"
  by (induction t) auto

lemma within_limit_Nil: "within_limit []"
  by (simp add: within_limit_def get_chunk_limit_def)

lemma find_part_Some_D:
  "find_part rw k = Some i \<Longrightarrow> within_limit (take i rw) \<and> 0 < i \<and> i \<le> k"
  by (induction k) (auto simp: Let_def within_limit_def split: if_splits)

lemma find_part_one: "find_part rw (Suc 0) = Some (Suc 0)"
  by (auto simp: Let_def get_chunk_limit_def min_def)

lemma find_part_not_None: "0 < k \<Longrightarrow> find_part rw k \<noteq> None"
proof (induction k)
  case 0
  then show ?case by simp
next
  case (Suc k)
  show ?case
  proof (cases k)
    case 0
    then show ?thesis using find_part_one by simp
  next
    case (Suc m)
    with Suc.IH show ?thesis by (simp add: Let_def)
  qed
qed

lemma split_word_parts:
  "\<exists>parts. split_word chunks rw = chunks @ parts \<and> concat parts = rw \<and>
     (rw \<noteq> [] \<longrightarrow> parts \<noteq> []) \<and> (\<forall>p\<in>set parts. within_limit p \<and> p \<noteq> [])"
proof (induction chunks rw rule: split_word.induct)
  case (1 chunks rw)
  show ?case
  proof (cases "rw = []")
    case True
    then show ?thesis by (simp add: split_word.simps)
  next
    case False
    then have "find_part rw (length rw) \<noteq> None"
      by (simp add: find_part_not_None)
    then obtain i where i: "find_part rw (length rw) = Some i" by auto
    from find_part_Some_D [OF i] have wi: "within_limit (take i rw)" and ipos: "0 < i" by auto
    from "1.IH"(2) [OF False i] obtain parts where
      p: "split_word (chunks @ [take i rw]) (drop i rw) = (chunks @ [take i rw]) @ parts"
         "concat parts = drop i rw" "\<forall>p\<in>set parts. within_limit p \<and> p \<noteq> []"
      by blast
    have sw: "split_word chunks rw = split_word (chunks @ [take i rw]) (drop i rw)"
      using False i by (subst split_word.simps) simp
    have ne: "take i rw \<noteq> []" using False ipos by (cases rw) auto
    show ?thesis
      apply (rule exI [of _ "take i rw # parts"])
      using p sw wi ne by simp
  qed
qed

lemma pack_word_ok: "chunks_ok st \<Longrightarrow> chunks_ok (pack_word st word)"
proof -
  assume a: "chunks_ok st"
  obtain chunks cur where st: "st = (chunks, cur)" by (cases st)
  obtain parts where p: "split_word (if cur \<noteq> [] then chunks @ [cur] else chunks) word
       = (if cur \<noteq> [] then chunks @ [cur] else chunks) @ parts"
      "\<forall>p\<in>set parts. within_limit p \<and> p \<noteq> []"
    using split_word_parts by blast
  show ?thesis using a p
    by (auto simp: st chunks_ok_def pack_word_def Let_def within_limit_Nil not_less
         within_limit_def [symmetric] split: if_splits)
qed

lemma foldl_pack_word_ok: "chunks_ok st \<Longrightarrow> chunks_ok (foldl pack_word st ws)"
  by (induction ws arbitrary: st) (auto simp: pack_word_ok)

lemma pack_word_size:
  assumes "word \<noteq> []"
  shows "state_size st + length word + 1 \<le> state_size (pack_word st word)"
proof -
  obtain chunks cur where st: "st = (chunks, cur)" by (cases st)
  obtain parts where p: "split_word (if cur \<noteq> [] then chunks @ [cur] else chunks) word
       = (if cur \<noteq> [] then chunks @ [cur] else chunks) @ parts"
      "concat parts = word" "parts \<noteq> []"
    using split_word_parts assms by blast
  have "length word = sum_list (map length parts)"
    using p(2) by (simp add: length_concat [symmetric])
  moreover have "1 \<le> length parts" using p(3) by (cases parts) auto
  ultimately show ?thesis using p(1) assms
    by (auto simp: st pack_word_def Let_def split: if_splits)
qed

lemma foldl_pack_word_size:
  "\<forall>w\<in>set ws. w \<noteq> [] \<Longrightarrow>
   state_size st + sum_list (map (\<lambda>w. length w + 1) ws) \<le> state_size (foldl pack_word st ws)"
proof (induction ws arbitrary: st)
  case Nil
  then show ?case by simp
next
  case (Cons w ws)
  have "state_size st + length w + 1 \<le> state_size (pack_word st w)"
    using Cons.prems pack_word_size [of w st] by simp
  moreover have "state_size (pack_word st w) + sum_list (map (\<lambda>w. length w + 1) ws)
      \<le> state_size (foldl pack_word (pack_word st w) ws)"
    using Cons.IH Cons.prems by simp
  ultimately show ?case by simp
qed

lemma split_space_not_Nil: "split_space t \<noteq> []"
  by (induction t) (auto split: list.splits)

lemma split_space_length: "sum_list (map (\<lambda>w. length w + 1) (split_space t)) = length t + 1"
  using split_space_not_Nil by (induction t) (auto split: list.splits)

lemma set_sub_ws: "set (sub_ws t) \<subseteq> insert 32 (set t)"
proof (induction t rule: sub_ws.induct)
  case 1
  then show ?case by simp
next
  case (2 c cs)
  have "set (dropWhile is_space cs) \<subseteq> set cs"
    by (auto dest: set_dropWhileD)
  with 2 show ?case by auto
qed

lemma length_sub_ws: "length (sub_ws t) \<le> length t"
proof (induction t rule: sub_ws.induct)
  case 1
  then show ?case by simp
next
  case (2 c cs)
  have "length (dropWhile is_space cs) \<le> length cs"
    by (rule length_dropWhile_le)
  with 2 show ?case by auto
qed

lemma set_strip: "set (strip s) \<subseteq> set s"
  by (auto simp: strip_def dest!: set_dropWhileD)

lemma length_strip: "length (strip s) \<le> length s"
  using length_dropWhile_le [of is_space "rev (dropWhile is_space s)"]
    length_dropWhile_le [of is_space s]
  by (simp add: strip_def)

lemma set_normalize: "set (normalize_ws t) \<subseteq> insert 32 (set t)"
  using set_strip [of "sub_ws t"] set_sub_ws [of t] by (auto simp: normalize_ws_def)

lemma length_normalize: "length (normalize_ws t) \<le> length t"
  using length_strip [of "sub_ws t"] length_sub_ws [of t] by (simp add: normalize_ws_def)

lemma space_in_gsm: "32 \<in> GSM_7BIT_SET"
  by (simp add: GSM_7BIT_SET_def GSM_7BIT_CHARS_def)

lemma normalize_gsm: "all_in_gsm t \<Longrightarrow> all_in_gsm (normalize_ws t)"
  using set_normalize [of t] space_in_gsm by (auto simp: all_in_gsm_iff)

lemma sub_ws_head: "u \<noteq> [] \<Longrightarrow> \<not> is_space (hd u) \<Longrightarrow> sub_ws u \<noteq> [] \<and> hd (sub_ws u) = hd u"
  by (cases u) auto

lemma single_spaced_sub_ws: "single_spaced (sub_ws t)"
proof (induction t rule: sub_ws.induct)
  case 1
  then show ?case by simp
next
  case (2 c cs)
  show ?case
  proof (cases "is_space c")
    case True
    let ?u = "dropWhile is_space cs"
    have "sub_ws ?u = [] \<or> \<not> is_space (hd (sub_ws ?u))"
    proof (cases "?u = []")
      case True
      show ?thesis unfolding True by simp
    next
      case False
      then have "\<not> is_space (hd ?u)" by (rule hd_dropWhile)
      with False sub_ws_head [of ?u] show ?thesis by simp
    qed
    with True 2 show ?thesis by simp
  next
    case False
    with 2 show ?thesis by (cases cs) auto
  qed
qed

lemma single_spaced_drop: "single_spaced u \<Longrightarrow> single_spaced (drop n u)"
  by (induction u arbitrary: n) (auto simp: drop_Cons split: nat.splits)

lemma single_spaced_take: "single_spaced u \<Longrightarrow> single_spaced (take n u)"
proof (induction u arbitrary: n)
  case Nil
  then show ?case by simp
next
  case (Cons c cs)
  show ?case
  proof (cases n)
    case 0
    then show ?thesis by simp
  next
    case (Suc m)
    have "take m cs = [] \<or> hd (take m cs) = hd cs"
      by (cases m; cases cs) auto
    with Cons Suc show ?thesis by auto
  qed
qed

lemma strip_eq_take_drop: "\<exists>n m. strip s = take m (drop n s)"
proof -
  let ?a = "dropWhile is_space s"
  have "strip s = rev (drop (length (takeWhile is_space (rev ?a))) (rev ?a))"
    by (simp add: strip_def dropWhile_eq_drop [symmetric])
  also have "\<dots> = take (length ?a - length (takeWhile is_space (rev ?a))) ?a"
    by (simp add: rev_drop)
  also have "?a = drop (length (takeWhile is_space s)) s"
    by (rule dropWhile_eq_drop)
  finally show ?thesis by blast
qed

lemma single_spaced_strip: "single_spaced u \<Longrightarrow> single_spaced (strip u)"
proof -
  assume a: "single_spaced u"
  obtain n m where "strip u = take m (drop n u)"
    using strip_eq_take_drop by blast
  with a show ?thesis by (simp add: single_spaced_take single_spaced_drop)
qed

lemma strip_ends: "strip s \<noteq> [] \<Longrightarrow> \<not> is_space (hd (strip s)) \<and> \<not> is_space (last (strip s))"
proof -
  assume ne: "strip s \<noteq> []"
  let ?a = "dropWhile is_space s"
  let ?b = "dropWhile is_space (rev ?a)"
  have s: "strip s = rev ?b" by (simp add: strip_def)
  with ne have b: "?b \<noteq> []" by simp
  have a: "?a \<noteq> []"
  proof
    assume e: "?a = []"
    have "?b = []" unfolding e by simp
    with b show False by simp
  qed
  have "\<not> is_space (hd ?b)" using b by (rule hd_dropWhile)
  then have l: "\<not> is_space (last (strip s))"
    using b by (simp add: s last_rev)
  have "?b = drop (length (takeWhile is_space (rev ?a))) (rev ?a)"
    by (rule dropWhile_eq_drop)
  moreover have "length (takeWhile is_space (rev ?a)) < length (rev ?a)"
    using b by (metis calculation drop_all not_le_imp_less)
  ultimately have "last ?b = last (rev ?a)"
    by (metis last_drop)
  also have "\<dots> = hd ?a" using a by (simp add: last_rev)
  finally have "hd (strip s) = hd ?a" using b by (simp add: s hd_rev)
  moreover have "\<not> is_space (hd ?a)" using a by (rule hd_dropWhile)
  ultimately show ?thesis using l by simp
qed

lemma is_space_32: "is_space 32"
  by (simp add: is_space_def)

lemma split_space_nonempty:
  "single_spaced s \<Longrightarrow> s \<noteq> [] \<Longrightarrow> \<not> is_space (hd s) \<Longrightarrow> \<not> is_space (last s) \<Longrightarrow>
   [] \<notin> set (split_space s)"
proof (induction s rule: induct_list012)
  case 1
  then show ?case by simp
next
  case (2 x)
  then show ?case using is_space_32 by auto
next
  case (3 x y zs)
  show ?case
  proof (cases "y = 32")
    case True
    with 3 have "zs \<noteq> []" "\<not> is_space (hd zs)" "single_spaced zs" "\<not> is_space (last zs)"
      using is_space_32 by (auto split: if_splits)
    with "3.IH"(1) have "[] \<notin> set (split_space zs)" by simp
    with True 3 show ?thesis using is_space_32 by auto
  next
    case False
    with 3 have "\<not> is_space y" by auto
    with 3 have "[] \<notin> set (split_space (y # zs))" by simp
    with False 3 show ?thesis using is_space_32 by (auto split: list.splits)
  qed
qed

lemma normalize_words_nonempty: "normalize_ws t \<noteq> [] \<Longrightarrow> [] \<notin> set (split_space (normalize_ws t))"
  unfolding normalize_ws_def
  using split_space_nonempty [of "strip (sub_ws t)"] single_spaced_strip [OF single_spaced_sub_ws, of t]
    strip_ends [of "sub_ws t"]
  by blast

lemma chunk_text_smart_multipart:
  assumes "get_chunk_limit (Some (normalize_ws raw)) False < length (normalize_ws raw)"
  shows "chunk_text_smart (Some raw) =
     (let st = foldl pack_word ([], []) (split_space (normalize_ws raw))
      in if snd st \<noteq> [] then fst st @ [snd st] else fst st)"
proof -
  from assms have "normalize_ws raw \<noteq> []" by auto
  with assms show ?thesis
    by (simp add: chunk_text_smart_def Let_def split_beta not_le [symmetric])
qed

lemma multipart_within:
  assumes "get_chunk_limit (Some (normalize_ws raw)) False < length (normalize_ws raw)"
  shows "\<forall>c\<in>set (chunk_text_smart (Some raw)). within_limit c \<and> c \<noteq> []"
proof -
  have "chunks_ok ([], [])"
    by (simp add: chunks_ok_def within_limit_Nil)
  then have "chunks_ok (foldl pack_word ([], []) (split_space (normalize_ws raw)))"
    by (rule foldl_pack_word_ok)
  then show ?thesis
    by (auto simp: chunk_text_smart_multipart [OF assms] Let_def chunks_ok_def)
qed

lemma multipart_size:
  assumes "get_chunk_limit (Some (normalize_ws raw)) False < length (normalize_ws raw)"
  shows "length (normalize_ws raw) + 1
     \<le> sum_list (map length (chunk_text_smart (Some raw))) + length (chunk_text_smart (Some raw))"
proof -
  let ?t = "normalize_ws raw"
  let ?st = "foldl pack_word ([], []) (split_space ?t)"
  from assms have ne: "?t \<noteq> []" by auto
  then have "\<forall>w\<in>set (split_space ?t). w \<noteq> []"
    using normalize_words_nonempty [of raw] by auto
  then have "state_size ([], []) + sum_list (map (\<lambda>w. length w + 1) (split_space ?t))
      \<le> state_size ?st"
    by (rule foldl_pack_word_size)
  then have "length ?t + 1 \<le> state_size ?st"
    using split_space_length [of ?t] by simp
  moreover have "state_size ?st =
      sum_list (map length (chunk_text_smart (Some raw))) + length (chunk_text_smart (Some raw))"
    by (cases ?st) (simp add: chunk_text_smart_multipart [OF assms] Let_def)
  ultimately show ?thesis by simp
qed

lemma within_limit_153: "within_limit c \<Longrightarrow> length c \<le> 153"
  by (simp add: within_limit_def get_chunk_limit_def split: if_splits)

lemma sum_list_bound: "\<forall>x\<in>set xs. f x \<le> (b::nat) \<Longrightarrow> sum_list (map f xs) \<le> b * length xs"
  by (induction xs) auto

lemma dropWhile_no_space: "xs = [] \<or> \<not> is_space (hd xs) \<Longrightarrow> dropWhile is_space xs = xs"
  by (cases xs) auto

lemma sub_ws_no_space: "\<forall>c\<in>set w. \<not> is_space c \<Longrightarrow> sub_ws (w @ r) = w @ sub_ws r"
  by (induction w) auto

lemma split_space_no_space: "32 \<notin> set w \<Longrightarrow> split_space w = [w]"
  by (induction w) auto

lemma split_space_append: "32 \<notin> set w \<Longrightarrow> split_space (w @ 32 # r) = w # split_space r"
  by (induction w) auto

lemma plain_word_32: "plain_word w \<Longrightarrow> 32 \<notin> set w"
  using is_space_32 by (auto simp: plain_word_def)

lemma join_space_ends:
  "ws \<noteq> [] \<Longrightarrow> \<forall>w\<in>set ws. plain_word w \<Longrightarrow>
   join_space ws \<noteq> [] \<and> \<not> is_space (hd (join_space ws)) \<and> \<not> is_space (last (join_space ws))"
proof (induction ws rule: join_space.induct)
  case 1
  then show ?case by simp
next
  case (2 w)
  then show ?case by (cases w) (auto simp: plain_word_def)
next
  case (3 w v ws)
  then show ?case by (cases w) (auto simp: plain_word_def)
qed

lemma sub_ws_join:
  "\<forall>w\<in>set ws. plain_word w \<Longrightarrow> sub_ws (join_space ws) = join_space ws"
proof (induction ws rule: join_space.induct)
  case 1
  then show ?case by simp
next
  case (2 w)
  then show ?case using sub_ws_no_space [of w "[]"] by (simp add: plain_word_def)
next
  case (3 w v ws)
  then have e: "\<not> is_space (hd (join_space (v # ws)))"
    using join_space_ends [of "v # ws"] by simp
  have "sub_ws (join_space (w # v # ws)) = w @ sub_ws (32 # join_space (v # ws))"
    using 3 sub_ws_no_space [of w] by (simp add: plain_word_def)
  also have "\<dots> = w @ 32 # sub_ws (join_space (v # ws))"
    using e is_space_32 by (simp add: dropWhile_no_space)
  finally show ?case using 3 by simp
qed

lemma split_space_join:
  "ws \<noteq> [] \<Longrightarrow> \<forall>w\<in>set ws. plain_word w \<Longrightarrow> split_space (join_space ws) = ws"
proof (induction ws rule: join_space.induct)
  case 1
  then show ?case by simp
next
  case (2 w)
  then show ?case by (simp add: split_space_no_space plain_word_32)
next
  case (3 w v ws)
  then show ?case by (simp add: split_space_append plain_word_32)
qed

lemma normalize_ws_join:
  assumes "ws \<noteq> []" and "\<forall>w\<in>set ws. plain_word w"
  shows "normalize_ws (join_space ws) = join_space ws"
proof -
  from join_space_ends [OF assms]
  have a: "\<not> is_space (hd (join_space ws))" and b: "\<not> is_space (last (join_space ws))"
    and c: "join_space ws \<noteq> []" by auto
  have "dropWhile is_space (rev (join_space ws)) = rev (join_space ws)"
    using b c by (intro dropWhile_no_space) (simp add: hd_rev)
  then show ?thesis
    using a by (simp add: normalize_ws_def sub_ws_join [OF assms(2)] strip_def dropWhile_no_space)
qed

lemma a_in_gsm: "97 \<in> GSM_7BIT_SET"
  by (simp add: GSM_7BIT_SET_def GSM_7BIT_CHARS_def)

lemma euro_not_in_gsm: "8364 \<notin> GSM_7BIT_SET"
  by (simp add: GSM_7BIT_SET_def GSM_7BIT_CHARS_def)

lemma is_gsm_7bit_Some: "is_gsm_7bit (Some t) \<longleftrightarrow> set t \<subseteq> GSM_7BIT_SET"
  by (simp add: is_gsm_7bit_def all_in_gsm_iff)

section \<open>Segments of a text with wide characters\<close>

text \<open>
  A text of 102 characters: the euro sign (a wide character), a space and a word of
  one hundred letters \<open>a\<close>. The word is cut off from the euro sign and forms a chunk
  of its own, which is narrow and one hundred characters long.
\<close>

lemma euro_text_join: "8364 # 32 # replicate 100 97 = join_space [[8364], replicate 100 97]"
  by simp

lemma euro_text_words: "\<forall>w\<in>set [[8364], replicate 100 97]. plain_word w"
  by (simp add: plain_word_def is_space_def)

lemma euro_text_normal:
  "normalize_ws (8364 # 32 # replicate 100 97) = 8364 # 32 # replicate 100 97"
  unfolding euro_text_join by (rule normalize_ws_join [OF _ euro_text_words]) simp

lemma euro_text_wide: "\<not> is_gsm_7bit (Some (8364 # 32 # replicate 100 97))"
  by (simp add: is_gsm_7bit_Some euro_not_in_gsm)

lemma euro_text_chunks:
  "chunk_text_smart (Some (8364 # 32 # replicate 100 97)) = [[8364], replicate 100 97]"
proof -
  let ?t = "8364 # 32 # replicate 100 97 :: ustring"
  have s: "split_space ?t = [[8364], replicate 100 97]"
    unfolding euro_text_join by (rule split_space_join [OF _ euro_text_words]) simp
  have m: "get_chunk_limit (Some (normalize_ws ?t)) False < length (normalize_ws ?t)"
    unfolding euro_text_normal using euro_text_wide by (simp add: get_chunk_limit_def)
  show ?thesis
    unfolding chunk_text_smart_multipart [OF m] euro_text_normal s
    by (simp add: pack_word_def get_chunk_limit_def is_gsm_7bit_Some euro_not_in_gsm
        a_in_gsm space_in_gsm)
qed

text \<open>
  C1, as the code has it. For every text whose whitespace-normalised form contains a
  wide character and is longer than 70, every returned segment is within the multipart
  limit of its own encoding: a segment that contains a wide character has length at
  most 67, and a segment of narrow characters only has length at most 153.
\<close>

theorem chunk_limit_per_segment:
  assumes "\<not> is_gsm_7bit (Some (normalize_ws raw))" and "70 < length (normalize_ws raw)"
  shows "\<forall>c\<in>set (chunk_text_smart (Some raw)).
           (\<not> is_gsm_7bit (Some c) \<longrightarrow> length c \<le> 67) \<and>
           (is_gsm_7bit (Some c) \<longrightarrow> length c \<le> 153)"
proof -
  from assms have "get_chunk_limit (Some (normalize_ws raw)) False < length (normalize_ws raw)"
    by (simp add: get_chunk_limit_def)
  from multipart_within [OF this] show ?thesis
    by (auto simp: within_limit_def get_chunk_limit_def)
qed

theorem chunk_limit_per_segment_witness:
  "\<not> is_gsm_7bit (Some (normalize_ws (8364 # 32 # replicate 100 97))) \<and>
   70 < length (normalize_ws (8364 # 32 # replicate 100 97)) \<and>
   list_all (\<lambda>c. length c \<le> (if is_gsm_7bit (Some c) then 153 else 67))
     (chunk_text_smart (Some (8364 # 32 # replicate 100 97)))"
proof -
  have a: "\<not> is_gsm_7bit (Some (normalize_ws (8364 # 32 # replicate 100 97)))"
    unfolding euro_text_normal by (rule euro_text_wide)
  have b: "70 < length (normalize_ws (8364 # 32 # replicate 100 97))"
    unfolding euro_text_normal by simp
  from a b chunk_limit_per_segment [OF a b] show ?thesis
    unfolding list_all_iff by auto
qed

text \<open>
  C1 as stated fails: the text above contains a wide character and has length 102, and
  its second segment has length 100.
\<close>

theorem chunk_wide_67_counterexample:
  "\<not> is_gsm_7bit (Some (8364 # 32 # replicate 100 97)) \<and>
   70 < length (8364 # 32 # replicate 100 (97::nat)) \<and>
   replicate 100 97 \<in> set (chunk_text_smart (Some (8364 # 32 # replicate 100 97))) \<and>
   \<not> length (replicate 100 (97::nat)) \<le> 67"
  using euro_text_wide by (simp add: euro_text_chunks)

section \<open>The number of segments of a narrow text\<close>

text \<open>
  Six words of 77 letters, joined by single spaces: 467 characters. No two words fit
  into one segment of 153, so every word is a segment.
\<close>

lemma six_words_plain: "\<forall>w\<in>set ([word77, word77, word77, word77, word77, word77]). plain_word w"
  by (simp add: plain_word_def is_space_def)

lemma six_words_length: "length (join_space [word77, word77, word77, word77, word77, word77]) = 467"
  by (simp add: numeral_eq_Suc)

lemma six_words_normal:
  "normalize_ws (join_space [word77, word77, word77, word77, word77, word77]) = join_space [word77, word77, word77, word77, word77, word77]"
  by (rule normalize_ws_join [OF _ six_words_plain]) simp

lemma six_words_narrow: "is_gsm_7bit (Some (join_space [word77, word77, word77, word77, word77, word77]))"
  by (simp add: is_gsm_7bit_Some a_in_gsm space_in_gsm)

lemma six_words_chunks:
  "chunk_text_smart (Some (join_space [word77, word77, word77, word77, word77, word77])) = [word77, word77, word77, word77, word77, word77]"
proof -
  let ?ws = "[word77, word77, word77, word77, word77, word77] :: ustring list"
  have s: "split_space (join_space ?ws) = ?ws"
    by (rule split_space_join [OF _ six_words_plain]) simp
  have m: "get_chunk_limit (Some (normalize_ws (join_space ?ws))) False
      < length (normalize_ws (join_space ?ws))"
    unfolding six_words_normal six_words_length by (simp add: get_chunk_limit_def)
  have g: "is_gsm_7bit (Some (replicate 77 97))" "is_gsm_7bit (Some (replicate 77 97 @ 32 # replicate 77 97))"
    by (simp_all add: is_gsm_7bit_Some a_in_gsm space_in_gsm)
  have p: "pack_word (cs, replicate 77 97) (replicate 77 97) = (cs @ [replicate 77 97], replicate 77 97)" for cs
    using g by (simp add: pack_word_def get_chunk_limit_def)
  have q: "pack_word ([], []) (replicate 77 97) = ([], replicate 77 97)"
    using g by (simp add: pack_word_def get_chunk_limit_def)
  show ?thesis
    unfolding chunk_text_smart_multipart [OF m] six_words_normal s
    by (simp add: p q)
qed

text \<open>
  C2, as the code has it. For every text of narrow characters whose normalised length
  \<open>n\<close> is between 161 and 500, every returned segment is non-empty and has length at
  most 153, and the number \<open>k\<close> of segments is at least \<open>ceil (n / 153) - 1\<close>; more
  precisely \<open>n + 1 \<le> 154 * k\<close>. (No bound from above by \<open>ceil (n / 153) + 1\<close> holds.)
\<close>

theorem chunk_count_lower_bound:
  assumes "is_gsm_7bit (Some raw)"
    and "161 \<le> length (normalize_ws raw)" and "length (normalize_ws raw) \<le> 500"
  shows "(\<forall>c\<in>set (chunk_text_smart (Some raw)). length c \<le> 153 \<and> c \<noteq> []) \<and>
         (length (normalize_ws raw) + 152) div 153 \<le> length (chunk_text_smart (Some raw)) + 1 \<and>
         length (normalize_ws raw) + 1 \<le> 154 * length (chunk_text_smart (Some raw))"
proof -
  let ?r = "chunk_text_smart (Some raw)"
  have m: "get_chunk_limit (Some (normalize_ws raw)) False < length (normalize_ws raw)"
    using assms(2) by (simp add: get_chunk_limit_def)
  have w: "\<forall>c\<in>set ?r. length c \<le> 153 \<and> c \<noteq> []"
    using multipart_within [OF m] within_limit_153 by blast
  then have "sum_list (map length ?r) \<le> 153 * length ?r"
    by (simp add: sum_list_bound)
  with multipart_size [OF m] have k: "length (normalize_ws raw) + 1 \<le> 154 * length ?r"
    by simp
  from k assms(3) have "(length (normalize_ws raw) + 152) div 153 \<le> length ?r + 1"
    by linarith
  with w k show ?thesis by simp
qed

theorem chunk_count_lower_bound_witness:
  "is_gsm_7bit (Some (join_space [word77, word77, word77, word77, word77, word77])) \<and>
   161 \<le> length (normalize_ws (join_space [word77, word77, word77, word77, word77, word77])) \<and>
   length (normalize_ws (join_space [word77, word77, word77, word77, word77, word77])) \<le> 500 \<and>
   list_all (\<lambda>c. length c \<le> 153 \<and> c \<noteq> [])
     (chunk_text_smart (Some (join_space [word77, word77, word77, word77, word77, word77]))) \<and>
   (length (normalize_ws (join_space [word77, word77, word77, word77, word77, word77])) + 152) div 153
     \<le> length (chunk_text_smart (Some (join_space [word77, word77, word77, word77, word77, word77]))) + 1 \<and>
   length (normalize_ws (join_space [word77, word77, word77, word77, word77, word77])) + 1
     \<le> 154 * length (chunk_text_smart (Some (join_space [word77, word77, word77, word77, word77, word77])))"
proof -
  let ?t = "join_space [word77, word77, word77, word77, word77, word77]"
  have a: "is_gsm_7bit (Some ?t)" by (rule six_words_narrow)
  have b: "161 \<le> length (normalize_ws ?t)"
    unfolding six_words_normal six_words_length by simp
  have c: "length (normalize_ws ?t) \<le> 500"
    unfolding six_words_normal six_words_length by simp
  from a b c chunk_count_lower_bound [OF a b c] show ?thesis
    unfolding list_all_iff by blast
qed

text \<open>
  C2 as stated fails: the six words above are narrow and 467 characters long,
  \<open>ceil (467 / 153) = 4\<close>, and there are six segments.
\<close>

theorem chunk_count_within_one_counterexample:
  "is_gsm_7bit (Some (join_space [word77, word77, word77, word77, word77, word77])) \<and>
   161 \<le> length (normalize_ws (join_space [word77, word77, word77, word77, word77, word77])) \<and>
   length (normalize_ws (join_space [word77, word77, word77, word77, word77, word77])) \<le> 500 \<and>
   (length (normalize_ws (join_space [word77, word77, word77, word77, word77, word77])) + 152) div 153 = 4 \<and>
   length (chunk_text_smart (Some (join_space [word77, word77, word77, word77, word77, word77]))) = 6 \<and>
   \<not> length (chunk_text_smart (Some (join_space [word77, word77, word77, word77, word77, word77])))
       \<le> (length (normalize_ws (join_space [word77, word77, word77, word77, word77, word77])) + 152) div 153 + 1"
  unfolding six_words_normal six_words_length six_words_chunks
  using six_words_narrow by simp

section \<open>A single long word of wide characters\<close>

lemma no_space_normal:
  assumes "w \<noteq> []" and "\<forall>c\<in>set w. \<not> is_space c"
  shows "normalize_ws w = w" and "split_space w = [w]"
proof -
  have p: "\<forall>v\<in>set [w]. plain_word v" using assms by (simp add: plain_word_def)
  from normalize_ws_join [OF _ p] show "normalize_ws w = w" by simp
  from split_space_join [OF _ p] show "split_space w = [w]" by simp
qed

lemma wide_not_gsm: "t \<noteq> [] \<Longrightarrow> \<forall>c\<in>set t. c \<notin> GSM_7BIT_SET \<Longrightarrow> \<not> is_gsm_7bit (Some t)"
  by (cases t) (auto simp: is_gsm_7bit_Some)

lemma find_part_wide:
  assumes "\<forall>c\<in>set rw. c \<notin> GSM_7BIT_SET"
  shows "0 < k \<Longrightarrow> k \<le> length rw \<Longrightarrow> find_part rw k = Some (min k 67)"
proof (induction k)
  case 0
  then show ?case by simp
next
  case (Suc k)
  have "take (Suc k) rw \<noteq> []" using Suc.prems by (cases rw) auto
  moreover have "\<forall>c\<in>set (take (Suc k) rw). c \<notin> GSM_7BIT_SET"
    using assms by (auto dest: in_set_takeD)
  ultimately have w: "\<not> is_gsm_7bit (Some (take (Suc k) rw))"
    by (rule wide_not_gsm)
  show ?case
  proof (cases "Suc k \<le> 67")
    case True
    with w Suc.prems show ?thesis
      by (simp add: Let_def get_chunk_limit_def min_def)
  next
    case False
    with Suc have "find_part rw k = Some (min k 67)" by simp
    with False w Suc.prems show ?thesis
      by (simp add: Let_def get_chunk_limit_def min_def)
  qed
qed

lemma split_word_wide_long:
  assumes "\<forall>c\<in>set rw. c \<notin> GSM_7BIT_SET" and "67 < length rw"
  shows "split_word cs rw = split_word (cs @ [take 67 rw]) (drop 67 rw)"
proof -
  have "rw \<noteq> []" using assms(2) by auto
  then have "find_part rw (length rw) = Some 67"
    using find_part_wide [OF assms(1), of "length rw"] assms(2) by simp
  then show ?thesis using assms(2) by (subst split_word.simps) auto
qed

lemma split_word_wide_short:
  assumes "\<forall>c\<in>set rw. c \<notin> GSM_7BIT_SET" and "0 < length rw" and "length rw \<le> 67"
  shows "split_word cs rw = cs @ [rw]"
proof -
  have "rw \<noteq> []" using assms(2) by auto
  then have "find_part rw (length rw) = Some (length rw)"
    using find_part_wide [OF assms(1), of "length rw"] assms(2,3) by simp
  then have "split_word cs rw = split_word (cs @ [rw]) []"
    using assms(2) by (subst split_word.simps) auto
  then show ?thesis by (simp add: split_word.simps)
qed

lemma wide_drop: "\<forall>c\<in>set rw. c \<notin> GSM_7BIT_SET \<Longrightarrow> \<forall>c\<in>set (drop n rw). c \<notin> GSM_7BIT_SET"
  by (auto dest: in_set_dropD)

lemma split_word_250:
  assumes "\<forall>c\<in>set w. c \<notin> GSM_7BIT_SET" and "length w = 250"
  shows "split_word [] w = [take 67 w, take 67 (drop 67 w), take 67 (drop 134 w), drop 201 w]"
proof -
  have "split_word [] w = split_word [take 67 w] (drop 67 w)"
    using split_word_wide_long [OF assms(1), of "[]"] assms(2) by simp
  also have "\<dots> = split_word [take 67 w, take 67 (drop 67 w)] (drop 134 w)"
    using split_word_wide_long [OF wide_drop [OF assms(1)], of 67 "[take 67 w]"] assms(2) by simp
  also have "\<dots> = split_word [take 67 w, take 67 (drop 67 w), take 67 (drop 134 w)] (drop 201 w)"
    using split_word_wide_long [OF wide_drop [OF assms(1)], of 134 "[take 67 w, take 67 (drop 67 w)]"]
      assms(2) by simp
  also have "\<dots> = [take 67 w, take 67 (drop 67 w), take 67 (drop 134 w), drop 201 w]"
    using split_word_wide_short [OF wide_drop [OF assms(1)], of 201
        "[take 67 w, take 67 (drop 67 w), take 67 (drop 134 w)]"] assms(2) by simp
  finally show ?thesis .
qed

text \<open>
  C3. A word of length 250, all of whose characters are wide and none of which is
  whitespace, is returned as four segments: the first three are the successive pieces
  of length 67 and the last one is the rest. Every segment has length at most 67,
  every segment but the last has length exactly 67, and the segments concatenated are
  the word.
\<close>

theorem chunk_long_wide_word:
  assumes "length w = 250" and "\<forall>c\<in>set w. c \<notin> GSM_7BIT_SET \<and> \<not> is_space c"
  shows "chunk_text_smart (Some w) = [take 67 w, take 67 (drop 67 w), take 67 (drop 134 w), drop 201 w] \<and>
         (\<forall>c\<in>set (chunk_text_smart (Some w)). length c \<le> 67) \<and>
         (\<forall>c\<in>set (butlast (chunk_text_smart (Some w))). length c = 67) \<and>
         concat (chunk_text_smart (Some w)) = w"
proof -
  have ne: "w \<noteq> []" using assms(1) by auto
  have wide: "\<forall>c\<in>set w. c \<notin> GSM_7BIT_SET" using assms(2) by simp
  have n: "normalize_ws w = w" and s: "split_space w = [w]"
    using no_space_normal [OF ne] assms(2) by simp_all
  have g: "\<not> is_gsm_7bit (Some w)" using wide_not_gsm [OF ne wide] .
  have m: "get_chunk_limit (Some (normalize_ws w)) False < length (normalize_ws w)"
    unfolding n using g assms(1) by (simp add: get_chunk_limit_def)
  have r: "chunk_text_smart (Some w) = [take 67 w, take 67 (drop 67 w), take 67 (drop 134 w), drop 201 w]"
    unfolding chunk_text_smart_multipart [OF m] n s
    using g assms(1) by (simp add: pack_word_def get_chunk_limit_def split_word_250 [OF wide assms(1)])
  have "take 67 (drop 134 w) @ drop 67 (drop 134 w) = drop 134 w"
    by (rule append_take_drop_id)
  moreover have "take 67 (drop 67 w) @ drop 67 (drop 67 w) = drop 67 w"
    by (rule append_take_drop_id)
  moreover have "take 67 w @ drop 67 w = w"
    by (rule append_take_drop_id)
  ultimately have "take 67 w @ take 67 (drop 67 w) @ take 67 (drop 134 w) @ drop 201 w = w"
    by simp
  then show ?thesis unfolding r using assms(1) by simp
qed

theorem chunk_long_wide_word_witness:
  "length (replicate 250 (8364::nat)) = 250 \<and>
   list_all (\<lambda>c. c \<notin> GSM_7BIT_SET \<and> \<not> is_space c) (replicate 250 8364) \<and>
   chunk_text_smart (Some (replicate 250 8364))
     = [replicate 67 8364, replicate 67 8364, replicate 67 8364, replicate 49 8364]"
proof -
  have a: "length (replicate 250 (8364::nat)) = 250" by simp
  have b: "\<forall>c\<in>set (replicate 250 8364). c \<notin> GSM_7BIT_SET \<and> \<not> is_space c"
    by (simp add: euro_not_in_gsm is_space_def)
  from chunk_long_wide_word [OF a b] a b show ?thesis
    unfolding list_all_iff by simp
qed

section \<open>A narrow text that fits into one message\<close>

text \<open>
  C4, as the code has it. For every text of length at most 160 all of whose characters
  are in the table \<open>GSM_7BIT_SET\<close> of the code, the result is the single segment that
  is the whitespace-normalised text, when that is not empty, and no segment at all when
  it is empty (the text is empty or whitespace only). The table lacks five characters
  of the GSM 7-bit alphabet (see C5 below); nothing is said here of a text that
  contains one of them.
\<close>

theorem chunk_single_narrow:
  assumes "is_gsm_7bit (Some raw)" and "length raw \<le> 160"
  shows "chunk_text_smart (Some raw) = (if normalize_ws raw = [] then [] else [normalize_ws raw])"
proof -
  have "is_gsm_7bit (Some (normalize_ws raw))"
    using assms(1) normalize_gsm [of raw] by (simp add: is_gsm_7bit_def)
  moreover have "length (normalize_ws raw) \<le> 160"
    using assms(2) length_normalize [of raw] by simp
  ultimately show ?thesis
    by (simp add: chunk_text_smart_def Let_def get_chunk_limit_def)
qed

lemma hi_there_normal:
  "normalize_ws [32, 104, 105, 32, 10, 116, 104, 101, 114, 101, 32] = [104, 105, 32, 116, 104, 101, 114, 101]"
  by (simp add: normalize_ws_def strip_def is_space_def)

lemma hi_there_narrow: "is_gsm_7bit (Some [32, 104, 105, 32, 10, 116, 104, 101, 114, 101, 32])"
  by (simp add: is_gsm_7bit_Some GSM_7BIT_SET_def GSM_7BIT_CHARS_def)

theorem chunk_single_narrow_witness:
  "is_gsm_7bit (Some [32, 104, 105, 32, 10, 116, 104, 101, 114, 101, 32]) \<and>
   length [32, 104, 105, 32, 10, 116, 104, 101, 114, 101, 32 :: nat] \<le> 160 \<and>
   chunk_text_smart (Some [32, 104, 105, 32, 10, 116, 104, 101, 114, 101, 32])
     = [[104, 105, 32, 116, 104, 101, 114, 101]]"
  using chunk_single_narrow [OF hi_there_narrow] hi_there_narrow by (simp add: hi_there_normal)

text \<open>C4 as stated fails at the empty text, for which no segment is returned.\<close>

theorem chunk_single_narrow_empty_counterexample:
  "is_gsm_7bit (Some []) \<and> length ([] :: ustring) \<le> 160 \<and>
   chunk_text_smart (Some []) = [] \<and> chunk_text_smart (Some []) \<noteq> [normalize_ws []]"
  by (simp add: is_gsm_7bit_def chunk_text_smart_def normalize_ws_def strip_def)

section \<open>The limits and the character table\<close>

text \<open>
  The four limits, and what \<open>is_gsm_7bit\<close> decides: \<open>None\<close> and the empty text are
  narrow, and a text is narrow when all its characters are in \<open>GSM_7BIT_SET\<close>.
\<close>

lemma get_chunk_limit_values:
  "get_chunk_limit t m =
     (if is_gsm_7bit t then (if m then 153 else 160) else (if m then 67 else 70))"
  "is_gsm_7bit None" "is_gsm_7bit (Some [])"
  "is_gsm_7bit (Some cs) \<longleftrightarrow> (\<forall>c\<in>set cs. c \<in> GSM_7BIT_SET)"
  by (auto simp: get_chunk_limit_def is_gsm_7bit_def all_in_gsm_iff)

lemma card_gsm: "card GSM_7BIT_SET = 123"
  unfolding GSM_7BIT_SET_def card_set unfolding GSM_7BIT_CHARS_def by simp

text \<open>
  C5, where the code departs from it. The letter E with acute accent (code point 201)
  is a character of the GSM 7-bit default alphabet, but for the text that consists of
  it \<open>is_gsm_7bit\<close> answers \<open>False\<close> and the limits are 70 and 67, not 160 and 153.
  The table of the source has 123 distinct characters, not 128: the escape character
  and the letters with code points 198, 230, 223 and 201 are missing.
\<close>

theorem gsm_set_misses_e_acute:
  "\<not> is_gsm_7bit (Some [201]) \<and> get_chunk_limit (Some [201]) False = 70 \<and>
   get_chunk_limit (Some [201]) True = 67 \<and> card GSM_7BIT_SET = 123"
proof -
  have "201 \<notin> GSM_7BIT_SET"
    by (simp add: GSM_7BIT_SET_def GSM_7BIT_CHARS_def)
  then show ?thesis
    by (simp add: get_chunk_limit_def is_gsm_7bit_def card_gsm)
qed

section \<open>The command router: registration and reset\<close>

lemma histories_save_histories [simp]: "histories (save_histories st) = histories st"
  and chats_save_histories [simp]: "chats (save_histories st) = chats st"
  and send_queue_save_histories [simp]: "send_queue (save_histories st) = send_queue st"
  and gemini_workers_save_histories [simp]: "gemini_workers (save_histories st) = gemini_workers st"
  by (simp_all add: save_histories_def log_def)

lemma confirmations_differ:
  "ascii ''Your number is already registered. You can start chatting!''
     \<noteq> ascii ''Your number has been registered successfully.''"
  by (simp add: ascii_def)

text \<open>
  C6. In \<open>handle_incoming\<close>, on the lower-cased, stripped text. For \<open>chat\<close>: an
  unregistered sender gets an empty history and one confirmation is queued; a registered
  sender keeps its history and a different message (already registered) is queued;
  handling the same message again leaves the histories as they are after the first
  time; no registered sender loses its history; chats and the worker queue are not
  touched. For \<open>clear\<close>: the sender's history and chat are removed when present,
  the histories are unchanged when the sender is unregistered, and one confirmation is
  queued in every case.
\<close>

theorem handle_incoming_commands:
  fixes lower :: "ustring \<Rightarrow> ustring" and phone body :: ustring and st :: server
  defines "st' \<equiv> handle_incoming lower (Some phone) (Some body) st"
  shows
  "(lower (strip body) = ascii ''chat'' \<longrightarrow>
      (phone \<notin> dom (histories st) \<longrightarrow>
         histories st' = (histories st)(phone \<mapsto> []) \<and>
         send_queue st' = send_queue st @ [(phone, ascii ''Your number has been registered successfully.'')]) \<and>
      (phone \<in> dom (histories st) \<longrightarrow>
         histories st' = histories st \<and>
         send_queue st' = send_queue st @
           [(phone, ascii ''Your number is already registered. You can start chatting!'')]) \<and>
      histories (handle_incoming lower (Some phone) (Some body) st') = histories st' \<and>
      dom (histories st) \<subseteq> dom (histories st') \<and>
      ascii ''Your number is already registered. You can start chatting!''
        \<noteq> ascii ''Your number has been registered successfully.'' \<and>
      chats st' = chats st \<and> gemini_workers st' = gemini_workers st) \<and>
   (lower (strip body) = ascii ''clear'' \<longrightarrow>
      histories st' = (histories st)(phone := None) \<and>
      chats st' = (chats st)(phone := None) \<and>
      (phone \<notin> dom (histories st) \<longrightarrow> histories st' = histories st) \<and>
      send_queue st' = send_queue st @ [(phone, ascii ''Chat history cleared successfully'')] \<and>
      gemini_workers st' = gemini_workers st)"
proof -
  have sd: "st' = handle_incoming lower (Some phone) (Some body) st"
    by (simp add: st'_def)
  have chat_new: "histories st' = (histories st)(phone \<mapsto> []) \<and>
      send_queue st' = send_queue st @ [(phone, ascii ''Your number has been registered successfully.'')]"
    if "lower (strip body) = ascii ''chat''" "phone \<notin> dom (histories st)"
    using that unfolding st'_def
    by (simp add: handle_incoming_def Let_def log_def send_sms_raw_def domIff)
  have chat_old: "histories sv = histories s \<and>
      send_queue sv = send_queue s @
        [(phone, ascii ''Your number is already registered. You can start chatting!'')]"
    if "lower (strip body) = ascii ''chat''" "phone \<in> dom (histories s)"
      "sv = handle_incoming lower (Some phone) (Some body) s" for s sv
    using that
    by (auto simp: handle_incoming_def Let_def log_def send_sms_raw_def)
  have chat_frame: "chats st' = chats st \<and> gemini_workers st' = gemini_workers st"
    if "lower (strip body) = ascii ''chat''"
    using that unfolding st'_def
    by (simp add: handle_incoming_def Let_def log_def send_sms_raw_def)
  have chat_dom: "phone \<in> dom (histories st')" "dom (histories st) \<subseteq> dom (histories st')"
    if c: "lower (strip body) = ascii ''chat''"
  proof -
    show "phone \<in> dom (histories st')"
    proof (cases "phone \<in> dom (histories st)")
      case True
      with chat_old [OF c True sd] show ?thesis by simp
    next
      case False
      with chat_new [OF c False] show ?thesis by simp
    qed
    show "dom (histories st) \<subseteq> dom (histories st')"
    proof (cases "phone \<in> dom (histories st)")
      case True
      with chat_old [OF c True sd] show ?thesis by simp
    next
      case False
      with chat_new [OF c False] show ?thesis by auto
    qed
  qed
  have clear: "histories st' = (histories st)(phone := None) \<and>
      chats st' = (chats st)(phone := None) \<and>
      send_queue st' = send_queue st @ [(phone, ascii ''Chat history cleared successfully'')] \<and>
      gemini_workers st' = gemini_workers st"
    if "lower (strip body) = ascii ''clear''"
  proof -
    have "ascii ''clear'' \<noteq> ascii ''chat''" by (simp add: ascii_def)
    with that show ?thesis unfolding st'_def
      by (auto simp: handle_incoming_def Let_def log_def send_sms_raw_def domIff fun_upd_idem)
  qed
  have clear_noop: "histories st' = histories st"
    if "lower (strip body) = ascii ''clear''" "phone \<notin> dom (histories st)"
    using clear [OF that(1)] that(2) by (simp add: domIff fun_upd_idem)
  show ?thesis
    using chat_new chat_old [OF _ _ sd] chat_old [OF _ chat_dom(1) refl] chat_frame chat_dom(2)
      clear clear_noop confirmations_differ
    by blast
qed

lemma chat_command: "ascii_lower (strip (ascii '' Chat '')) = ascii ''chat''"
  by (simp add: ascii_lower_def strip_def ascii_def is_space_def)

lemma clear_command: "ascii_lower (strip (ascii ''CLEAR'')) = ascii ''clear''"
  by (simp add: ascii_lower_def strip_def ascii_def is_space_def)

theorem handle_incoming_commands_witness:
  "ascii_lower (strip (ascii '' Chat '')) = ascii ''chat'' \<and>
   ascii ''+100'' \<notin> dom (histories initial_server) \<and>
   histories (handle_incoming ascii_lower (Some (ascii ''+100'')) (Some (ascii '' Chat ''))
     initial_server) = [ascii ''+100'' \<mapsto> []] \<and>
   send_queue (handle_incoming ascii_lower (Some (ascii ''+100'')) (Some (ascii '' Chat ''))
     initial_server) = [(ascii ''+100'', ascii ''Your number has been registered successfully.'')] \<and>
   ascii ''+100'' \<in> dom (histories (initial_server\<lparr>histories := [ascii ''+100'' \<mapsto> [turn 1]]\<rparr>)) \<and>
   histories (handle_incoming ascii_lower (Some (ascii ''+100'')) (Some (ascii '' Chat ''))
     (initial_server\<lparr>histories := [ascii ''+100'' \<mapsto> [turn 1]]\<rparr>)) = [ascii ''+100'' \<mapsto> [turn 1]] \<and>
   send_queue (handle_incoming ascii_lower (Some (ascii ''+100'')) (Some (ascii '' Chat ''))
     (initial_server\<lparr>histories := [ascii ''+100'' \<mapsto> [turn 1]]\<rparr>))
     = [(ascii ''+100'', ascii ''Your number is already registered. You can start chatting!'')] \<and>
   ascii_lower (strip (ascii ''CLEAR'')) = ascii ''clear'' \<and>
   histories (handle_incoming ascii_lower (Some (ascii ''+100'')) (Some (ascii ''CLEAR''))
     (initial_server\<lparr>histories := [ascii ''+100'' \<mapsto> [turn 1]]\<rparr>)) = Map.empty \<and>
   send_queue (handle_incoming ascii_lower (Some (ascii ''+100'')) (Some (ascii ''CLEAR''))
     (initial_server\<lparr>histories := [ascii ''+100'' \<mapsto> [turn 1]]\<rparr>))
     = [(ascii ''+100'', ascii ''Chat history cleared successfully'')]"
proof -
  let ?p = "ascii ''+100''"
  let ?st1 = "initial_server\<lparr>histories := [?p \<mapsto> [turn 1]]\<rparr>"
  have h2: "?p \<notin> dom (histories initial_server)"
    by (simp add: initial_server_def)
  have h3: "?p \<in> dom (histories ?st1)"
    by simp
  note a = handle_incoming_commands [where lower = ascii_lower and phone = ?p
      and body = "ascii '' Chat ''" and st = initial_server]
  note b = handle_incoming_commands [where lower = ascii_lower and phone = ?p
      and body = "ascii '' Chat ''" and st = ?st1]
  note c = handle_incoming_commands [where lower = ascii_lower and phone = ?p
      and body = "ascii ''CLEAR''" and st = ?st1]
  from a chat_command h2 have
    "histories (handle_incoming ascii_lower (Some ?p) (Some (ascii '' Chat '')) initial_server)
       = [?p \<mapsto> []]"
    "send_queue (handle_incoming ascii_lower (Some ?p) (Some (ascii '' Chat '')) initial_server)
       = [(?p, ascii ''Your number has been registered successfully.'')]"
    by (simp_all add: initial_server_def)
  moreover from b chat_command h3 have
    "histories (handle_incoming ascii_lower (Some ?p) (Some (ascii '' Chat '')) ?st1)
       = [?p \<mapsto> [turn 1]]"
    "send_queue (handle_incoming ascii_lower (Some ?p) (Some (ascii '' Chat '')) ?st1)
       = [(?p, ascii ''Your number is already registered. You can start chatting!'')]"
    by (simp_all add: initial_server_def)
  moreover from c clear_command have
    "histories (handle_incoming ascii_lower (Some ?p) (Some (ascii ''CLEAR'')) ?st1) = Map.empty"
    "send_queue (handle_incoming ascii_lower (Some ?p) (Some (ascii ''CLEAR'')) ?st1)
       = [(?p, ascii ''Chat history cleared successfully'')]"
    by (simp_all add: initial_server_def)
  ultimately show ?thesis
    using chat_command clear_command h2 h3 by blast
qed

section \<open>The command router: other text from an unregistered sender\<close>

text \<open>
  C9. When the lower-cased, stripped text is neither \<open>chat\<close> nor \<open>clear\<close> and the
  sender has no history, \<open>handle_incoming\<close> leaves the histories, the chats, the set
  of processed identifiers, the send queue and the worker queue unchanged (and the
  queue of new messages and the two files as well); it only writes two lines to the log.
\<close>

theorem handle_incoming_unregistered:
  fixes lower :: "ustring \<Rightarrow> ustring" and phone body :: ustring and st :: server
  defines "st' \<equiv> handle_incoming lower (Some phone) (Some body) st"
  assumes "lower (strip body) \<noteq> ascii ''chat''" and "lower (strip body) \<noteq> ascii ''clear''"
    and "phone \<notin> dom (histories st)"
  shows "histories st' = histories st \<and> chats st' = chats st \<and>
         processed_sms st' = processed_sms st \<and> send_queue st' = send_queue st \<and>
         gemini_workers st' = gemini_workers st \<and>
         new_message_queue st' = new_message_queue st \<and>
         history_file st' = history_file st \<and> processed_file st' = processed_file st \<and>
         log_lines st' = log_lines st @ [Log_in phone (strip body), Log_ignored_unregistered phone]"
  using assms(2-4) unfolding st'_def
  by (simp add: handle_incoming_def Let_def log_def)

lemma hello_command:
  "ascii_lower (strip (ascii ''hello'')) \<noteq> ascii ''chat''"
  "ascii_lower (strip (ascii ''hello'')) \<noteq> ascii ''clear''"
  "strip (ascii ''hello'') = ascii ''hello''"
  by (simp_all add: ascii_lower_def strip_def ascii_def is_space_def)

theorem handle_incoming_unregistered_witness:
  "ascii_lower (strip (ascii ''hello'')) \<noteq> ascii ''chat'' \<and>
   ascii_lower (strip (ascii ''hello'')) \<noteq> ascii ''clear'' \<and>
   ascii ''+100'' \<notin> dom (histories initial_server) \<and>
   histories (handle_incoming ascii_lower (Some (ascii ''+100'')) (Some (ascii ''hello''))
     initial_server) = Map.empty \<and>
   send_queue (handle_incoming ascii_lower (Some (ascii ''+100'')) (Some (ascii ''hello''))
     initial_server) = [] \<and>
   gemini_workers (handle_incoming ascii_lower (Some (ascii ''+100'')) (Some (ascii ''hello''))
     initial_server) = [] \<and>
   log_lines (handle_incoming ascii_lower (Some (ascii ''+100'')) (Some (ascii ''hello''))
     initial_server)
     = [Log_in (ascii ''+100'') (ascii ''hello''), Log_ignored_unregistered (ascii ''+100'')]"
proof -
  have h: "ascii ''+100'' \<notin> dom (histories initial_server)"
    by (simp add: initial_server_def)
  from handle_incoming_unregistered [where lower = ascii_lower and body = "ascii ''hello''",
      OF hello_command(1,2) h] hello_command h
  show ?thesis by (simp add: initial_server_def)
qed

section \<open>The polling loop: every identifier is routed at most once\<close>




















section \<open>The conversational worker: a failing backend\<close>

lemma gemini_job_fails:
  assumes "backend_fails env st phone"
  shows "\<exists>st'. gemini_job env phone body st = Inl st' \<and> histories st' = histories st \<and>
     history_file st' = history_file st \<and> send_queue st' = send_queue st \<and>
     gemini_workers st' = gemini_workers st"
  using assms
  by (auto simp: gemini_job_def ensure_chat_def backend_fails_def log_def
      split: option.splits response.splits)

text \<open>
  C8. When the backend fails for the oldest job of the queue, the round of the worker
  leaves the histories, the history file and the send queue unchanged, takes the job
  off the queue (it is not put back), and the worker goes on with the next round.
\<close>

theorem gemini_worker_backend_failure:
  assumes "gemini_workers st = (phone, body) # rest" and "backend_fails env st phone"
  shows "histories (gemini_worker_step env st) = histories st \<and>
         history_file (gemini_worker_step env st) = history_file st \<and>
         send_queue (gemini_worker_step env st) = send_queue st \<and>
         gemini_workers (gemini_worker_step env st) = rest \<and>
         gemini_worker_fn (env # envs) st = gemini_worker_fn envs (gemini_worker_step env st)"
proof -
  have "backend_fails env (st\<lparr>gemini_workers := rest\<rparr>) phone"
    using assms(2) by (simp add: backend_fails_def)
  from gemini_job_fails [OF this, of body] obtain st' where
    "gemini_job env phone body (st\<lparr>gemini_workers := rest\<rparr>) = Inl st'"
    "histories st' = histories st" "history_file st' = history_file st"
    "send_queue st' = send_queue st" "gemini_workers st' = rest"
    by auto
  with assms(1) show ?thesis
    by (simp add: gemini_worker_step_def log_def)
qed

theorem gemini_worker_backend_failure_witness:
  "gemini_workers (initial_server\<lparr>gemini_workers := [(ascii ''+100'', ascii ''hello'')]\<rparr>)
     = (ascii ''+100'', ascii ''hello'') # [] \<and>
   backend_fails \<lparr>create_chat = Some 1, send_message = Send_failed, clock = 0\<rparr>
     (initial_server\<lparr>gemini_workers := [(ascii ''+100'', ascii ''hello'')]\<rparr>) (ascii ''+100'') \<and>
   histories (gemini_worker_step \<lparr>create_chat = Some 1, send_message = Send_failed, clock = 0\<rparr>
     (initial_server\<lparr>gemini_workers := [(ascii ''+100'', ascii ''hello'')]\<rparr>)) = Map.empty \<and>
   send_queue (gemini_worker_step \<lparr>create_chat = Some 1, send_message = Send_failed, clock = 0\<rparr>
     (initial_server\<lparr>gemini_workers := [(ascii ''+100'', ascii ''hello'')]\<rparr>)) = [] \<and>
   gemini_workers (gemini_worker_step \<lparr>create_chat = Some 1, send_message = Send_failed, clock = 0\<rparr>
     (initial_server\<lparr>gemini_workers := [(ascii ''+100'', ascii ''hello'')]\<rparr>)) = []"
proof -
  let ?st = "initial_server\<lparr>gemini_workers := [(ascii ''+100'', ascii ''hello'')]\<rparr>"
  let ?env = "\<lparr>create_chat = Some 1, send_message = Send_failed, clock = 0\<rparr>"
  have a: "gemini_workers ?st = (ascii ''+100'', ascii ''hello'') # []"
    by simp
  have b: "backend_fails ?env ?st (ascii ''+100'')"
    by (simp add: backend_fails_def)
  from gemini_worker_backend_failure [OF a b] a b show ?thesis
    by (simp add: initial_server_def)
qed

section \<open>The history endpoint\<close>

text \<open>
  C10. \<open>total_count\<close> is the length of the stored history (0 when there is none) for
  every limit. For a stored history, the limit 0, like no limit, returns all of it, and
  a positive limit \<open>l\<close> returns its last \<open>l\<close> entries.
\<close>

theorem get_history_limit:
  "total_count (get_history phone limit st)
     = (case histories st phone of None \<Rightarrow> 0 | Some h \<Rightarrow> length h) \<and>
   (histories st phone = Some h \<longrightarrow>
      messages (get_history phone (Some 0) st) = h \<and>
      messages (get_history phone None st) = h \<and>
      (0 < l \<longrightarrow> messages (get_history phone (Some l) st) = drop (length h - nat l) h))"
proof -
  have "nat (int (length h) - l) = length h - nat l" if "0 < l"
    using that by linarith
  then show ?thesis
    by (auto simp: get_history_def Let_def slice_from_def max_def split: option.splits)
qed

theorem get_history_limit_witness:
  "histories (initial_server\<lparr>histories := [ascii ''+100'' \<mapsto> [turn 1, turn 2, turn 3]]\<rparr>)
     (ascii ''+100'') = Some [turn 1, turn 2, turn 3] \<and>
   (0::int) < 2 \<and>
   total_count (get_history (ascii ''+100'') (Some 2)
     (initial_server\<lparr>histories := [ascii ''+100'' \<mapsto> [turn 1, turn 2, turn 3]]\<rparr>)) = 3 \<and>
   messages (get_history (ascii ''+100'') (Some 0)
     (initial_server\<lparr>histories := [ascii ''+100'' \<mapsto> [turn 1, turn 2, turn 3]]\<rparr>))
     = [turn 1, turn 2, turn 3] \<and>
   messages (get_history (ascii ''+100'') (Some 2)
     (initial_server\<lparr>histories := [ascii ''+100'' \<mapsto> [turn 1, turn 2, turn 3]]\<rparr>))
     = [turn 2, turn 3]"
proof -
  let ?st = "initial_server\<lparr>histories := [ascii ''+100'' \<mapsto> [turn 1, turn 2, turn 3]]\<rparr>"
  have a: "histories ?st (ascii ''+100'') = Some [turn 1, turn 2, turn 3]"
    by simp
  from get_history_limit [where st = ?st and phone = "ascii ''+100''" and limit = "Some 2"
      and h = "[turn 1, turn 2, turn 3]" and l = 2] a
  show ?thesis by simp
qed

end
